theory Spec2Isabelle
  imports Main
begin

section \<open>Strings as the program uses them\<close>

text \<open>
  JavaScript strings are modelled as \<open>string\<close>. \<open>startsWith\<close> is
  \<^verbatim>\<open>String.prototype.startsWith\<close> at position 0.
\<close>

definition startsWith :: "string \<Rightarrow> string \<Rightarrow> bool" where
  "startsWith s p = (take (length p) s = p)"

text \<open>
  \<^verbatim>\<open>String(n)\<close> for a non-negative integer, as a template literal renders
  \<^verbatim>\<open>response.status\<close>.
\<close>

definition digit :: "nat \<Rightarrow> char" where
  "digit d = char_of (48 + d)"

fun showNat :: "nat \<Rightarrow> string" where
  "showNat n = (if n < 10 then [digit n] else showNat (n div 10) @ [digit (n mod 10)])"

declare showNat.simps [simp del]

section \<open>audioshake.ts: data\<close>

text \<open>\<^verbatim>\<open>interface StemResult { model: string; urls: Record<string, string> }\<close>\<close>

record StemResult =
  model :: string
  urls :: "(string \<times> string) list"

text \<open>The string-literal union of \<^verbatim>\<open>TaskStatus.status\<close>.\<close>

datatype state = pending | processing | completed | failed | cancelled

text \<open>
  \<^verbatim>\<open>interface TaskStatus { id; status; stems?; error? }\<close>. An optional field
  is an \<open>option\<close>: \<open>None\<close> is \<^verbatim>\<open>undefined\<close>.
\<close>

record TaskStatus =
  task_id :: string
  status :: state
  stems :: "StemResult list option"
  error :: "string option"

text \<open>
  A \<^verbatim>\<open>fetch\<close> response: the numeric status, the body as text, and the body as
  parsed by \<^verbatim>\<open>json()\<close> and cast to the type the code names. \<^verbatim>\<open>ok\<close> is
  true for a status from 200 to 299.
\<close>

record 'a Response =
  http_status :: nat
  body_text :: string
  json :: 'a

definition ok :: "'a Response \<Rightarrow> bool" where
  "ok r = (200 \<le> http_status r \<and> http_status r \<le> 299)"

text \<open>Every \<^verbatim>\<open>throw new Error(message)\<close> of the program is \<open>Inl (Error message)\<close>.\<close>

datatype exn = Error string

text \<open>The body of the POST that creates the task.\<close>

record Target =
  target_model :: string
  formats :: "string list"

record CreateBody =
  url :: string
  targets :: "Target list"

section \<open>The remote service and the clock\<close>

text \<open>
  What one turn of the polling loop meets outside the program: by how many milliseconds
  the timer fires later than the 5000 asked for, how long the GET takes until
  \<^verbatim>\<open>Date.now()\<close> is read, and the response of the GET. Every request is
  answered with a response whose body parses: a \<^verbatim>\<open>fetch\<close> or a
  \<^verbatim>\<open>json()\<close> that rejects is not part of the model. The clock does not go
  backwards.
\<close>

record Poll =
  overshoot :: nat
  latency :: nat
  reply :: "TaskStatus Response"

record Service =
  create :: "CreateBody \<Rightarrow> string \<Rightarrow> string Response"
  poll :: "nat \<Rightarrow> Poll"

text \<open>
  What the program does to the outside, in order: a POST (address, body, API key), a
  \<^verbatim>\<open>setTimeout\<close> of so many milliseconds that is awaited, a GET (address, API key).
\<close>

datatype event =
    Post string CreateBody string
  | Sleep nat
  | Get string string

text \<open>
  A run of \<^verbatim>\<open>separateStems\<close>: the events, the value of
  \<^verbatim>\<open>Date.now() - startTime\<close> when the loop was left (0 when it was never
  entered), and the returned stems or the thrown error.
\<close>

record Run =
  events :: "event list"
  elapsed :: nat
  result :: "exn + StemResult list"

definition after :: "event list \<Rightarrow> Run \<Rightarrow> Run" where
  "after es r = r\<lparr>events := es @ events r\<rparr>"

text \<open>The number of GET requests of a run.\<close>

fun isGet :: "event \<Rightarrow> bool" where
  "isGet (Get _ _) = True"
| "isGet _ = False"

definition polls :: "Run \<Rightarrow> nat" where
  "polls r = length (filter isGet (events r))"

section \<open>audioshake.ts: separateStems\<close>

definition AUDIOSHAKE_API_BASE :: string where
  "AUDIOSHAKE_API_BASE = ''https://api.audioshake.ai/tasks''"

definition timeout :: nat where
  "timeout = 600000"

definition pollInterval :: nat where
  "pollInterval = 5000"

text \<open>
  The body of \<^verbatim>\<open>while (true)\<close> after the GET has answered: \<open>now\<close> is
  \<^verbatim>\<open>Date.now() - startTime\<close>. The checks are in the order of the source.
  \<^verbatim>\<open>status.stems\<close> is truthy for every array, also the empty one;
  \<^verbatim>\<open>status.error || 'Unknown error'\<close> takes the default for \<^verbatim>\<open>undefined\<close>
  and for the empty string. The progress line written to the terminal is left out.
\<close>

datatype step = Return "StemResult list" | Throw exn | Continue

definition loopBody :: "nat \<Rightarrow> TaskStatus Response \<Rightarrow> step" where
  "loopBody now statusResponse =
     (if \<not> ok statusResponse then
        Throw (Error (''Failed to check task status ('' @ showNat (http_status statusResponse)
                        @ ''): '' @ body_text statusResponse))
      else
        let st = json statusResponse in
        case (if status st = completed then stems st else None) of
          Some found \<Rightarrow> Return found
        | None \<Rightarrow>
            if status st = failed then
              Throw (Error (''Stem separation failed: '' @
                       (case error st of
                          None \<Rightarrow> ''Unknown error''
                        | Some e \<Rightarrow> if e = [] then ''Unknown error'' else e)))
            else if now > timeout then
              Throw (Error ''Task timeout after 10 minutes'')
            else Continue)"

text \<open>
  The loop: turn \<open>k\<close> starts at \<open>t\<close> milliseconds after \<^verbatim>\<open>startTime\<close>, sleeps,
  issues the GET for the task and runs the body on the answer.
\<close>

definition turn :: "string \<Rightarrow> string \<Rightarrow> event list" where
  "turn tid apiKey = [Sleep pollInterval, Get (AUDIOSHAKE_API_BASE @ ''/'' @ tid) apiKey]"

definition nowAt :: "Poll \<Rightarrow> nat \<Rightarrow> nat" where
  "nowAt p t = t + pollInterval + overshoot p + latency p"

function pollLoop :: "(nat \<Rightarrow> Poll) \<Rightarrow> string \<Rightarrow> string \<Rightarrow> nat \<Rightarrow> nat \<Rightarrow> Run" where
  "pollLoop svc tid apiKey k t =
     (case loopBody (nowAt (svc k) t) (reply (svc k)) of
        Return found \<Rightarrow>
          \<lparr>events = turn tid apiKey, elapsed = nowAt (svc k) t,
           result = Inr found\<rparr>
      | Throw e \<Rightarrow>
          \<lparr>events = turn tid apiKey, elapsed = nowAt (svc k) t,
           result = Inl e\<rparr>
      | Continue \<Rightarrow>
          after (turn tid apiKey)
            (pollLoop svc tid apiKey (Suc k) (nowAt (svc k) t)))"
  by pat_completeness auto
termination
proof (relation "measure (\<lambda>(svc, tid, apiKey, k, t). Suc timeout - t)")
  show "wf (measure (\<lambda>(svc, tid, apiKey, k, t). Suc timeout - t))"
    by simp
next
  fix svc :: "nat \<Rightarrow> Poll" and tid apiKey :: string and k t :: nat
  assume "loopBody (nowAt (svc k) t) (reply (svc k)) = Continue"
  then have "nowAt (svc k) t \<le> timeout"
    by (auto simp: loopBody_def Let_def split: if_splits option.splits)
  moreover have "t < nowAt (svc k) t"
    by (simp add: nowAt_def pollInterval_def)
  ultimately show "((svc, tid, apiKey, Suc k, nowAt (svc k) t), (svc, tid, apiKey, k, t))
      \<in> measure (\<lambda>(svc, tid, apiKey, k, t). Suc timeout - t)"
    by simp
qed

declare pollLoop.simps [simp del]

definition defaultStems :: "string list" where
  "defaultStems = [''vocals'', ''instrumental'']"

text \<open>The object \<^verbatim>\<open>body\<close> that is sent as JSON when the task is created.\<close>

definition createBody :: "string \<Rightarrow> string list \<Rightarrow> CreateBody" where
  "createBody audioUrl stemNames =
     \<lparr>url = audioUrl,
      targets = map (\<lambda>m. \<lparr>target_model = m, formats = [''wav'']\<rparr>) stemNames\<rparr>"

text \<open>
  \<^verbatim>\<open>separateStems(audioUrl, apiKey, stems = ['vocals', 'instrumental'])\<close>: the third
  argument is \<open>None\<close> when the caller leaves it out. \<^verbatim>\<open>startTime\<close> is read
  once, after the task was created, so the loop starts at 0.
\<close>

definition separateStems :: "Service \<Rightarrow> string \<Rightarrow> string \<Rightarrow> string list option \<Rightarrow> Run" where
  "separateStems svc audioUrl apiKey stemsArg =
     (let stemNames = (case stemsArg of None \<Rightarrow> defaultStems | Some names \<Rightarrow> names) in
      if \<not> startsWith audioUrl ''https://'' then
        \<lparr>events = [], elapsed = 0, result = Inl (Error ''AudioShake requires HTTPS URLs'')\<rparr>
      else
        let body = createBody audioUrl stemNames;
            createResponse = create svc body apiKey
        in
        if \<not> ok createResponse then
          \<lparr>events = [Post AUDIOSHAKE_API_BASE body apiKey], elapsed = 0,
           result = Inl (Error (''AudioShake API error ('' @ showNat (http_status createResponse)
                                  @ ''): '' @ body_text createResponse))\<rparr>
        else
          after [Post AUDIOSHAKE_API_BASE body apiKey]
            (pollLoop (poll svc) (json createResponse) apiKey 0 0))"

text \<open>
  The value of \<^verbatim>\<open>Date.now() - startTime\<close> with which turn \<open>k\<close> of the loop
  starts, when every turn before it went on.
\<close>

fun startOf :: "(nat \<Rightarrow> Poll) \<Rightarrow> nat \<Rightarrow> nat" where
  "startOf svc 0 = 0"
| "startOf svc (Suc k) = nowAt (svc k) (startOf svc k)"

section \<open>index.ts\<close>

definition SUPPORTED_AUDIO_EXTENSIONS :: "string list" where
  "SUPPORTED_AUDIO_EXTENSIONS =
     [''.mp3'', ''.wav'', ''.flac'', ''.aac'', ''.ogg'', ''.m4a'', ''.wma'', ''.aiff'', ''.alac'',
      ''.opus'']"

text \<open>
  \<^verbatim>\<open>toLowerCase\<close> on the characters of \<open>string\<close>: the letters A to Z move to
  a to z, every other character stays.
\<close>

definition lowerChar :: "char \<Rightarrow> char" where
  "lowerChar c =
     (if (65::nat) \<le> of_char c \<and> of_char c \<le> (90::nat) then char_of (of_char c + (32::nat))
      else c)"

definition toLowerCase :: "string \<Rightarrow> string" where
  "toLowerCase s = map lowerChar s"

text \<open>
  \<^verbatim>\<open>extname\<close> is Node's \<^verbatim>\<open>path.extname\<close>; the program only calls it, so it is
  a parameter here.
\<close>

definition isSupportedAudioFile :: "(string \<Rightarrow> string) \<Rightarrow> string \<Rightarrow> bool" where
  "isSupportedAudioFile extname filePath =
     (let extension = toLowerCase (extname filePath)
      in extension \<in> set SUPPORTED_AUDIO_EXTENSIONS)"

text \<open>
  \<^verbatim>\<open>s.replace(pattern, replacement)\<close> with a string pattern: the first occurrence
  is replaced (the replacement used here has no \<^verbatim>\<open>$\<close>).
\<close>

fun replace :: "string \<Rightarrow> string \<Rightarrow> string \<Rightarrow> string" where
  "replace [] pat rep = (if pat = [] then rep else [])"
| "replace (c # cs) pat rep =
     (if startsWith (c # cs) pat then rep @ drop (length pat) (c # cs)
      else c # replace cs pat rep)"

text \<open>
  The check of the uploaded address, between \<^verbatim>\<open>uploadFileTemporary\<close> and the
  end of its \<^verbatim>\<open>try\<close> block.
\<close>

definition upgradeAudioUrl :: "string \<Rightarrow> exn + string" where
  "upgradeAudioUrl uploaded =
     (let audioUrl =
            (if startsWith uploaded ''http://'' then replace uploaded ''http://'' ''https://''
             else uploaded)
      in if \<not> startsWith audioUrl ''https://'' then
           Inl (Error ''Invalid URL format - AudioShake requires HTTPS URLs'')
         else Inr audioUrl)"

text \<open>
  What the program finds when it starts: what \<^verbatim>\<open>program.parse(process.argv)\<close>
  makes of the command line, the file system, the converter and the uploader (each
  answers with the resolved value or the rejection),
  \<^verbatim>\<open>process.env.AUDIOSHAKE_API_KEY\<close> after \<^verbatim>\<open>dotenv.config()\<close>, and the
  remote service. commander can end the process inside \<^verbatim>\<open>parse\<close> (for
  \<^verbatim>\<open>--help\<close>, for a command line it refuses): \<open>parseExit\<close> is then the status
  it ends with, and \<open>None\<close> when \<^verbatim>\<open>parse\<close> returns.
\<close>

record World =
  parseExit :: "nat option"
  optionFile :: "string option"
  optionSong :: "string option"
  args :: "string list"
  existsSync :: "string \<Rightarrow> bool"
  extname :: "string \<Rightarrow> string"
  convertToWav :: "string \<Rightarrow> exn + string"
  uploadFileTemporary :: "string \<Rightarrow> exn + string"
  envApiKey :: "string option"
  audioshake :: Service

text \<open>The stages the program starts, in order, and the status the process ends with.\<close>

datatype stage =
    Help
  | Convert string
  | Upload string
  | Separate string string

record Outcome =
  stages :: "stage list"
  exitCode :: nat

text \<open>
  \<^verbatim>\<open>undefined\<close> and the empty string are both falsy, and the program only
  tests these values for truthiness before it uses them.
\<close>

definition truthy :: "string option \<Rightarrow> bool" where
  "truthy v = (case v of None \<Rightarrow> False | Some s \<Rightarrow> s \<noteq> [])"

definition orEmpty :: "string option \<Rightarrow> string" where
  "orEmpty v = (case v of None \<Rightarrow> [] | Some s \<Rightarrow> s)"

text \<open>\<^verbatim>\<open>args.at(-1)\<close>\<close>

definition atLast :: "string list \<Rightarrow> string option" where
  "atLast xs = (if xs = [] then None else Some (last xs))"

text \<open>
  The module body of index.ts, from \<^verbatim>\<open>program.parse\<close> to the end of the
  process. \<^verbatim>\<open>program.help()\<close> prints the help and ends the process with status 0; each
  \<^verbatim>\<open>process.exit(1)\<close> ends it with status 1; a run that reaches the end of the
  module ends with status 0. Console output is left out.
\<close>

definition main :: "World \<Rightarrow> Outcome" where
  "main w =
     (case parseExit w of
        Some code \<Rightarrow> \<lparr>stages = [], exitCode = code\<rparr>
      | None \<Rightarrow>
      let filePath = (case optionFile w of Some f \<Rightarrow> Some f | None \<Rightarrow> atLast (args w));
          songName = optionSong w
      in
      if \<not> truthy filePath \<and> \<not> truthy songName then \<lparr>stages = [Help], exitCode = 0\<rparr>
      else if truthy filePath \<and> \<not> existsSync w (orEmpty filePath) then
        \<lparr>stages = [], exitCode = 1\<rparr>
      else if truthy filePath \<and> \<not> isSupportedAudioFile (extname w) (orEmpty filePath) then
        \<lparr>stages = [], exitCode = 1\<rparr>
      else
        let filePath' = (if \<not> truthy filePath then ''./downloaded/song.mp3''
                         else orEmpty filePath)
        in
        case convertToWav w filePath' of
          Inl _ \<Rightarrow> \<lparr>stages = [Convert filePath'], exitCode = 1\<rparr>
        | Inr wavPath \<Rightarrow>
            (case uploadFileTemporary w wavPath of
               Inl _ \<Rightarrow> \<lparr>stages = [Convert filePath', Upload wavPath], exitCode = 1\<rparr>
             | Inr uploaded \<Rightarrow>
                 (case upgradeAudioUrl uploaded of
                    Inl _ \<Rightarrow> \<lparr>stages = [Convert filePath', Upload wavPath], exitCode = 1\<rparr>
                  | Inr audioUrl \<Rightarrow>
                      if \<not> truthy (envApiKey w) then
                        \<lparr>stages = [Convert filePath', Upload wavPath], exitCode = 1\<rparr>
                      else
                        (case result (separateStems (audioshake w) audioUrl
                                        (orEmpty (envApiKey w)) None) of
                           Inl _ \<Rightarrow>
                             \<lparr>stages = [Convert filePath', Upload wavPath,
                                        Separate audioUrl (orEmpty (envApiKey w))],
                              exitCode = 1\<rparr>
                         | Inr _ \<Rightarrow>
                             \<lparr>stages = [Convert filePath', Upload wavPath,
                                        Separate audioUrl (orEmpty (envApiKey w))],
                              exitCode = 0\<rparr>))))"

section \<open>Comparing extensions without regard to case\<close>

text \<open>
  The extensions as the help text and the spec list them, and what it means for two
  strings to be equal when case is ignored: they have the same length and, position by
  position, the same character or the two cases of one letter A to Z.
\<close>

definition supportedNames :: "string list" where
  "supportedNames =
     [''mp3'', ''wav'', ''flac'', ''aac'', ''ogg'', ''m4a'', ''wma'', ''aiff'', ''alac'', ''opus'']"

definition isUpper :: "char \<Rightarrow> bool" where
  "isUpper c = ((65::nat) \<le> of_char c \<and> of_char c \<le> (90::nat))"

definition sameLetter :: "char \<Rightarrow> char \<Rightarrow> bool" where
  "sameLetter a b =
     (a = b \<or> isUpper a \<and> (of_char b :: nat) = of_char a + 32
            \<or> isUpper b \<and> (of_char a :: nat) = of_char b + 32)"

definition equalIgnoringCase :: "string \<Rightarrow> string \<Rightarrow> bool" where
  "equalIgnoringCase s t = list_all2 sameLetter s t"

section \<open>Mocked services\<close>

text \<open>
  The services of the spec's test scenarios: responses with status 200 and a given task
  status, a clock with no delay beyond the 5000 ms of the timer, and a service that
  answers a given list of polls in order and then repeats a last one for ever.
\<close>

definition answer :: "state \<Rightarrow> StemResult list option \<Rightarrow> string option \<Rightarrow> TaskStatus Response" where
  "answer s found e =
     \<lparr>http_status = 200, body_text = [],
      json = \<lparr>task_id = ''task-1'', status = s, stems = found, error = e\<rparr>\<rparr>"

definition punctual :: "TaskStatus Response \<Rightarrow> Poll" where
  "punctual r = \<lparr>overshoot = 0, latency = 0, reply = r\<rparr>"

definition late :: "nat \<Rightarrow> TaskStatus Response \<Rightarrow> Poll" where
  "late ms r = \<lparr>overshoot = 0, latency = ms, reply = r\<rparr>"

definition created :: "CreateBody \<Rightarrow> string \<Rightarrow> string Response" where
  "created body apiKey = \<lparr>http_status = 200, body_text = [], json = ''task-1''\<rparr>"

definition script :: "Poll list \<Rightarrow> Poll \<Rightarrow> Service" where
  "script ps final =
     \<lparr>create = created, poll = (\<lambda>k. if k < length ps then ps ! k else final)\<rparr>"

definition vocals :: StemResult where
  "vocals = \<lparr>model = ''vocals'', urls = [(''wav'', ''https://cdn.example/vocals.wav'')]\<rparr>"

definition sampleExtname :: "string \<Rightarrow> string" where
  "sampleExtname p =
     (if p = ''song.MP3'' then ''.MP3'' else if p = ''notes.txt'' then ''.txt'' else [])"

text \<open>
  A run with a valid file, a converter and an uploader that succeed, and no API key in
  the environment.
\<close>

definition keylessWorld :: World where
  "keylessWorld =
     \<lparr>parseExit = None, optionFile = Some ''song.mp3'', optionSong = None, args = [],
      existsSync = (\<lambda>p. True), extname = (\<lambda>p. ''.mp3''),
      convertToWav = (\<lambda>p. Inr ''converted/song.wav''),
      uploadFileTemporary = (\<lambda>p. Inr ''https://0x0.st/abc.wav''),
      envApiKey = None,
      audioshake = script [] (punctual (answer completed (Some [vocals]) None))\<rparr>"

text \<open>The same environment when the program is started with no file and no song.\<close>

definition helpWorld :: World where
  "helpWorld = keylessWorld\<lparr>optionFile := None\<rparr>"

text \<open>The same run with a key, and an uploader that answers with a given address.\<close>

definition uploadedWorld :: "string \<Rightarrow> World" where
  "uploadedWorld uploaded =
     keylessWorld\<lparr>uploadFileTemporary := (\<lambda>p. Inr uploaded), envApiKey := Some ''key''\<rparr>"

text \<open>Status "completed" without stems once, then "completed" with stems.\<close>

definition completedWithoutStemsOnce :: Service where
  "completedWithoutStemsOnce =
     script [punctual (answer completed None None)]
       (punctual (answer completed (Some [vocals]) None))"

text \<open>Two polls answered "processing", each 405 s after the one before.\<close>

definition slowProcessing :: Service where
  "slowProcessing =
     script [late 400000 (answer processing None None), late 400000 (answer processing None None)]
       (punctual (answer completed (Some [vocals]) None))"

text \<open>Status "cancelled" at every poll.\<close>

definition alwaysCancelled :: Service where
  "alwaysCancelled = script [] (punctual (answer cancelled None None))"

text \<open>Status "processing" \<open>n\<close> times, then "completed" with the given stems.\<close>

definition processingThenCompleted :: "nat \<Rightarrow> StemResult list \<Rightarrow> Service" where
  "processingThenCompleted n found =
     script (replicate n (punctual (answer processing None None)))
       (punctual (answer completed (Some found) None))"

section \<open>The polling loop, one turn at a time\<close>

lemma polls_after_turn: "polls (after (turn tid apiKey) r) = Suc (polls r)"
  by (simp add: polls_def after_def turn_def)

lemma loopBody_Return:
  "loopBody now r = Return found \<longleftrightarrow>
     ok r \<and> status (json r) = completed \<and> stems (json r) = Some found"
  by (auto simp: loopBody_def Let_def split: if_splits option.splits)

lemma pollLoop_Return:
  "loopBody (nowAt (svc k) t) (reply (svc k)) = Return found \<Longrightarrow>
   pollLoop svc tid apiKey k t =
     \<lparr>events = turn tid apiKey, elapsed = nowAt (svc k) t, result = Inr found\<rparr>"
  by (simp add: pollLoop.simps)

lemma pollLoop_Throw:
  "loopBody (nowAt (svc k) t) (reply (svc k)) = Throw e \<Longrightarrow>
   pollLoop svc tid apiKey k t =
     \<lparr>events = turn tid apiKey, elapsed = nowAt (svc k) t, result = Inl e\<rparr>"
  by (simp add: pollLoop.simps)

lemma pollLoop_Continue:
  "loopBody (nowAt (svc k) t) (reply (svc k)) = Continue \<Longrightarrow>
   pollLoop svc tid apiKey k t =
     after (turn tid apiKey) (pollLoop svc tid apiKey (Suc k) (nowAt (svc k) t))"
  by (simp add: pollLoop.simps)

lemma pollLoop_shape:
  "1 \<le> polls (pollLoop svc tid apiKey k t) \<and>
   events (pollLoop svc tid apiKey k t) =
     concat (replicate (polls (pollLoop svc tid apiKey k t)) (turn tid apiKey)) \<and>
   t + pollInterval * polls (pollLoop svc tid apiKey k t) \<le> elapsed (pollLoop svc tid apiKey k t)"
proof (induction svc tid apiKey k t rule: pollLoop.induct)
  case (1 svc tid apiKey k t)
  show ?case
  proof (cases "loopBody (nowAt (svc k) t) (reply (svc k))")
    case (Return found)
    then show ?thesis
      by (simp add: pollLoop_Return polls_def turn_def nowAt_def)
  next
    case (Throw e)
    then show ?thesis
      by (simp add: pollLoop_Throw polls_def turn_def nowAt_def)
  next
    case Continue
    have "t + pollInterval \<le> nowAt (svc k) t"
      by (simp add: nowAt_def)
    with Continue "1.IH" [OF Continue] show ?thesis
      by (simp add: pollLoop_Continue polls_after_turn) (simp add: after_def)
  qed
qed

lemma pollLoop_success_last:
  "result (pollLoop svc tid apiKey k t) = Inr found \<Longrightarrow>
   ok (reply (svc (k + polls (pollLoop svc tid apiKey k t) - 1))) \<and>
   status (json (reply (svc (k + polls (pollLoop svc tid apiKey k t) - 1)))) = completed \<and>
   stems (json (reply (svc (k + polls (pollLoop svc tid apiKey k t) - 1)))) = Some found"
proof (induction svc tid apiKey k t rule: pollLoop.induct)
  case (1 svc tid apiKey k t)
  show ?case
  proof (cases "loopBody (nowAt (svc k) t) (reply (svc k))")
    case (Return found')
    with "1.prems" have "found' = found"
      by (simp add: pollLoop_Return)
    with Return show ?thesis
      by (simp add: pollLoop_Return polls_def turn_def loopBody_Return)
  next
    case (Throw e)
    with "1.prems" show ?thesis
      by (simp add: pollLoop_Throw)
  next
    case Continue
    from "1.prems" Continue
    have "result (pollLoop svc tid apiKey (Suc k) (nowAt (svc k) t)) = Inr found"
      by (simp add: pollLoop_Continue after_def)
    from "1.IH" [OF Continue this] Continue show ?thesis
      by (simp add: pollLoop_Continue polls_after_turn)
  qed
qed

lemma after_after: "after a (after b r) = after (a @ b) r"
  by (simp add: after_def)

lemma after_Nil: "after [] r = r"
  by (simp add: after_def)

lemma result_after: "result (after es r) = result r"
  by (simp add: after_def)

lemma elapsed_after: "elapsed (after es r) = elapsed r"
  by (simp add: after_def)

lemma events_after: "events (after es r) = es @ events r"
  by (simp add: after_def)

lemma polls_after_turns:
  "polls (after (concat (replicate n (turn tid apiKey))) r) = n + polls r"
  by (induction n) (simp_all add: polls_def after_def turn_def)

lemma concat_replicate_snoc: "concat (replicate n x) @ x = concat (replicate (Suc n) x)"
  by (induction n) simp_all

lemma startOf_lower: "pollInterval * k \<le> startOf svc k"
  by (induction k) (simp_all add: nowAt_def)

lemma loopBody_waiting:
  assumes "ok r" and "status (json r) = pending \<or> status (json r) = processing \<or>
                       status (json r) = cancelled"
    and "now \<le> timeout"
  shows "loopBody now r = Continue"
  using assms by (auto simp: loopBody_def)

lemma pollLoop_prefix:
  assumes "\<forall>j<n. loopBody (startOf svc (Suc j)) (reply (svc j)) = Continue"
  shows "pollLoop svc tid apiKey 0 0 =
           after (concat (replicate n (turn tid apiKey)))
             (pollLoop svc tid apiKey n (startOf svc n))"
  using assms
proof (induction n)
  case 0
  show ?case by (simp add: after_Nil)
next
  case (Suc n)
  then have "loopBody (nowAt (svc n) (startOf svc n)) (reply (svc n)) = Continue"
    by simp
  then have "pollLoop svc tid apiKey n (startOf svc n) =
      after (turn tid apiKey) (pollLoop svc tid apiKey (Suc n) (startOf svc (Suc n)))"
    by (simp add: pollLoop_Continue)
  moreover from Suc have "pollLoop svc tid apiKey 0 0 =
           after (concat (replicate n (turn tid apiKey)))
             (pollLoop svc tid apiKey n (startOf svc n))"
    by simp
  moreover have "concat (replicate n (turn tid apiKey)) @ turn tid apiKey =
      concat (replicate (Suc n) (turn tid apiKey))"
    by (rule concat_replicate_snoc)
  ultimately show ?case
    by (simp only: after_after)
qed

lemma startOf_punctual:
  assumes "\<forall>j<k. overshoot (svc j) = 0 \<and> latency (svc j) = 0"
  shows "startOf svc k = pollInterval * k"
  using assms by (induction k) (simp_all add: nowAt_def)

lemma punctual_waiting_times_out:
  assumes clock: "\<forall>j<121. overshoot (svc j) = 0 \<and> latency (svc j) = 0"
    and waiting: "\<forall>j<121. ok (reply (svc j)) \<and>
           (status (json (reply (svc j))) = pending \<or>
            status (json (reply (svc j))) = processing \<or>
            status (json (reply (svc j))) = cancelled)"
  shows "pollLoop svc tid apiKey 0 0 =
           after (concat (replicate 120 (turn tid apiKey)))
             \<lparr>events = turn tid apiKey, elapsed = 605000,
              result = Inl (Error ''Task timeout after 10 minutes'')\<rparr>"
proof -
  have start: "startOf svc k = pollInterval * k" if "k \<le> 121" for k
    using clock that by (intro startOf_punctual) simp
  have "\<forall>j<120. loopBody (startOf svc (Suc j)) (reply (svc j)) = Continue"
  proof (intro allI impI)
    fix j :: nat
    assume j: "j < 120"
    then have "startOf svc (Suc j) \<le> timeout"
      using start [of "Suc j"] by (simp add: pollInterval_def timeout_def del: startOf.simps)
    moreover from j waiting have "ok (reply (svc j))"
      and "status (json (reply (svc j))) = pending \<or>
           status (json (reply (svc j))) = processing \<or>
           status (json (reply (svc j))) = cancelled"
      by simp_all
    ultimately show "loopBody (startOf svc (Suc j)) (reply (svc j)) = Continue"
      by (intro loopBody_waiting)
  qed
  then have prefix: "pollLoop svc tid apiKey 0 0 =
      after (concat (replicate 120 (turn tid apiKey)))
        (pollLoop svc tid apiKey 120 (startOf svc 120))"
    by (rule pollLoop_prefix)
  have now: "nowAt (svc 120) (startOf svc 120) = 605000"
    using clock by (simp add: start nowAt_def pollInterval_def)
  from waiting have "ok (reply (svc 120))"
    and "status (json (reply (svc 120))) = pending \<or>
         status (json (reply (svc 120))) = processing \<or>
         status (json (reply (svc 120))) = cancelled"
    by simp_all
  then have "loopBody 605000 (reply (svc 120)) = Throw (Error ''Task timeout after 10 minutes'')"
    by (auto simp: loopBody_def timeout_def)
  with now have "pollLoop svc tid apiKey 120 (startOf svc 120) =
      \<lparr>events = turn tid apiKey, elapsed = 605000,
       result = Inl (Error ''Task timeout after 10 minutes'')\<rparr>"
    by (simp add: pollLoop_Throw)
  with prefix show ?thesis
    by simp
qed

lemma polls_after_Post: "polls (after [Post a b c] r) = polls r"
  by (simp add: polls_def after_def)

lemma poll_script_replicate:
  "poll (script (replicate n p) q) j = (if j < n then p else q)"
  by (simp add: script_def)

lemma separateStems_enters_loop:
  assumes "startsWith audioUrl ''https://''"
    and "ok (create svc (createBody audioUrl
               (case stemsArg of None \<Rightarrow> defaultStems | Some names \<Rightarrow> names)) apiKey)"
  shows "separateStems svc audioUrl apiKey stemsArg =
           after [Post AUDIOSHAKE_API_BASE
                    (createBody audioUrl
                       (case stemsArg of None \<Rightarrow> defaultStems | Some names \<Rightarrow> names)) apiKey]
             (pollLoop (poll svc)
                (json (create svc (createBody audioUrl
                   (case stemsArg of None \<Rightarrow> defaultStems | Some names \<Rightarrow> names)) apiKey))
                apiKey 0 0)"
  using assms by (simp add: separateStems_def Let_def)

lemma startOf_processingThenCompleted:
  "startOf (poll (processingThenCompleted n found)) k = 5000 * k"
  using startOf_punctual [of k "poll (processingThenCompleted n found)"]
  by (simp add: processingThenCompleted_def poll_script_replicate punctual_def pollInterval_def)

lemma loopBody_Continue_le: "loopBody now r = Continue \<Longrightarrow> now \<le> timeout"
  by (auto simp: loopBody_def Let_def split: if_splits option.splits)

lemma pollLoop_run:
  assumes "t = startOf svc k"
  shows "elapsed (pollLoop svc tid apiKey k t) =
           startOf svc (k + polls (pollLoop svc tid apiKey k t)) \<and>
         (\<forall>j. k \<le> j \<and> Suc j < k + polls (pollLoop svc tid apiKey k t) \<longrightarrow>
               loopBody (startOf svc (Suc j)) (reply (svc j)) = Continue) \<and>
         (case loopBody (startOf svc (k + polls (pollLoop svc tid apiKey k t)))
                 (reply (svc (k + polls (pollLoop svc tid apiKey k t) - 1))) of
            Return found \<Rightarrow> result (pollLoop svc tid apiKey k t) = Inr found
          | Throw e \<Rightarrow> result (pollLoop svc tid apiKey k t) = Inl e
          | Continue \<Rightarrow> False)"
  using assms
proof (induction svc tid apiKey k t rule: pollLoop.induct)
  case (1 svc tid apiKey k t)
  then have now: "nowAt (svc k) t = startOf svc (Suc k)"
    by simp
  show ?case
  proof (cases "loopBody (nowAt (svc k) t) (reply (svc k))")
    case (Return found)
    then show ?thesis
      using now by (auto simp: pollLoop_Return polls_def turn_def)
  next
    case (Throw e)
    then show ?thesis
      using now by (auto simp: pollLoop_Throw polls_def turn_def)
  next
    case Continue
    let ?next = "pollLoop svc tid apiKey (Suc k) (nowAt (svc k) t)"
    define n where "n = polls ?next"
    have run: "pollLoop svc tid apiKey k t = after (turn tid apiKey) ?next"
      using Continue by (simp add: pollLoop_Continue)
    have P: "polls (pollLoop svc tid apiKey k t) = Suc n"
      by (simp only: run polls_after_turn n_def)
    have R: "result (pollLoop svc tid apiKey k t) = result ?next"
      by (simp only: run result_after)
    have E: "elapsed (pollLoop svc tid apiKey k t) = elapsed ?next"
      by (simp only: run elapsed_after)
    note ih = "1.IH" [OF Continue now, folded n_def]
    from ih have e: "elapsed ?next = startOf svc (Suc (k + n))"
      by (simp del: startOf.simps)
    from ih have c: "case loopBody (startOf svc (Suc (k + n))) (reply (svc (k + n))) of
            Return found \<Rightarrow> result ?next = Inr found
          | Throw e \<Rightarrow> result ?next = Inl e
          | Continue \<Rightarrow> False"
      by (simp del: startOf.simps)
    from ih have later: "\<forall>j. Suc k \<le> j \<and> Suc j < Suc k + n \<longrightarrow>
               loopBody (startOf svc (Suc j)) (reply (svc j)) = Continue"
      by (simp del: startOf.simps)
    have first: "loopBody (startOf svc (Suc k)) (reply (svc k)) = Continue"
      using Continue now by (simp del: startOf.simps)
    have all: "\<forall>j. k \<le> j \<and> Suc j < k + Suc n \<longrightarrow>
               loopBody (startOf svc (Suc j)) (reply (svc j)) = Continue"
    proof (intro allI impI)
      fix j
      assume j: "k \<le> j \<and> Suc j < k + Suc n"
      show "loopBody (startOf svc (Suc j)) (reply (svc j)) = Continue"
      proof (cases "j = k")
        case True
        with first show ?thesis by (simp del: startOf.simps)
      next
        case False
        with j have "Suc k \<le> j \<and> Suc j < Suc k + n"
          by simp
        with later show ?thesis
          by blast
      qed
    qed
    show ?thesis
      unfolding P R E using e c all by (simp del: startOf.simps)
  qed
qed

lemma loopBody_over_budget:
  assumes "timeout < now"
  shows "(ok r \<and> (status (json r) = pending \<or> status (json r) = processing \<or>
            status (json r) = cancelled \<or>
            status (json r) = completed \<and> stems (json r) = None) \<longrightarrow>
            loopBody now r = Throw (Error ''Task timeout after 10 minutes'')) \<and>
         (ok r \<and> status (json r) = completed \<and> stems (json r) = Some found \<longrightarrow>
            loopBody now r = Return found) \<and>
         (ok r \<and> status (json r) = failed \<longrightarrow>
            (\<exists>m. loopBody now r = Throw (Error (''Stem separation failed: '' @ m)))) \<and>
         (\<not> ok r \<longrightarrow>
            (\<exists>m. loopBody now r = Throw (Error (''Failed to check task status ('' @ m))))"
  using assms by (auto simp: loopBody_def)

lemma pollLoop_from_start:
  "elapsed (pollLoop svc tid apiKey 0 0) = startOf svc (polls (pollLoop svc tid apiKey 0 0))"
  "Suc i < polls (pollLoop svc tid apiKey 0 0) \<Longrightarrow>
     loopBody (startOf svc (Suc i)) (reply (svc i)) = Continue"
  "case loopBody (startOf svc (polls (pollLoop svc tid apiKey 0 0)))
          (reply (svc (polls (pollLoop svc tid apiKey 0 0) - 1))) of
     Return found \<Rightarrow> result (pollLoop svc tid apiKey 0 0) = Inr found
   | Throw e \<Rightarrow> result (pollLoop svc tid apiKey 0 0) = Inl e
   | Continue \<Rightarrow> False"
proof -
  have "0 = startOf svc 0"
    by simp
  note run = pollLoop_run [OF this, of tid apiKey]
  from run show "elapsed (pollLoop svc tid apiKey 0 0) =
      startOf svc (polls (pollLoop svc tid apiKey 0 0))"
    by (simp del: startOf.simps)
  from run show "loopBody (startOf svc (Suc i)) (reply (svc i)) = Continue"
    if "Suc i < polls (pollLoop svc tid apiKey 0 0)"
    using that by (simp del: startOf.simps)
  from run show "case loopBody (startOf svc (polls (pollLoop svc tid apiKey 0 0)))
          (reply (svc (polls (pollLoop svc tid apiKey 0 0) - 1))) of
     Return found \<Rightarrow> result (pollLoop svc tid apiKey 0 0) = Inr found
   | Throw e \<Rightarrow> result (pollLoop svc tid apiKey 0 0) = Inl e
   | Continue \<Rightarrow> False"
    by (simp del: startOf.simps)
qed

lemma pollLoop_at_most_121: "polls (pollLoop svc tid apiKey 0 0) \<le> 121"
proof (rule ccontr)
  assume "\<not> polls (pollLoop svc tid apiKey 0 0) \<le> 121"
  then have "Suc 120 < polls (pollLoop svc tid apiKey 0 0)"
    by simp
  then have "loopBody (startOf svc (Suc 120)) (reply (svc 120)) = Continue"
    by (rule pollLoop_from_start)
  then have "startOf svc (Suc 120) \<le> timeout"
    by (rule loopBody_Continue_le)
  moreover have "pollInterval * Suc 120 \<le> startOf svc (Suc 120)"
    by (rule startOf_lower)
  ultimately show False
    by (simp add: pollInterval_def timeout_def del: startOf.simps)
qed

lemma pollLoop_over_budget:
  assumes j: "j < polls (pollLoop svc tid apiKey 0 0)"
    and over: "timeout < startOf svc (Suc j)"
  shows "polls (pollLoop svc tid apiKey 0 0) = Suc j"
    and "elapsed (pollLoop svc tid apiKey 0 0) = startOf svc (Suc j)"
    and "case loopBody (startOf svc (Suc j)) (reply (svc j)) of
              Return found \<Rightarrow> result (pollLoop svc tid apiKey 0 0) = Inr found
            | Throw e \<Rightarrow> result (pollLoop svc tid apiKey 0 0) = Inl e
            | Continue \<Rightarrow> False"
proof -
  have "\<not> Suc j < polls (pollLoop svc tid apiKey 0 0)"
  proof
    assume "Suc j < polls (pollLoop svc tid apiKey 0 0)"
    then have "loopBody (startOf svc (Suc j)) (reply (svc j)) = Continue"
      by (rule pollLoop_from_start)
    then have "startOf svc (Suc j) \<le> timeout"
      by (rule loopBody_Continue_le)
    with over show False
      by simp
  qed
  with j show n: "polls (pollLoop svc tid apiKey 0 0) = Suc j"
    by simp
  from pollLoop_from_start(1) [of svc tid apiKey] n
  show "elapsed (pollLoop svc tid apiKey 0 0) = startOf svc (Suc j)"
    by (simp del: startOf.simps)
  from pollLoop_from_start(3) [of svc tid apiKey] n
  show "case loopBody (startOf svc (Suc j)) (reply (svc j)) of
              Return found \<Rightarrow> result (pollLoop svc tid apiKey 0 0) = Inr found
            | Throw e \<Rightarrow> result (pollLoop svc tid apiKey 0 0) = Inl e
            | Continue \<Rightarrow> False"
    by (simp del: startOf.simps)
qed

section \<open>Rules for running the model on a given service\<close>

lemmas run_simps = pollLoop_Return pollLoop_Continue pollLoop_Throw loopBody_def nowAt_def
  separateStems_def createBody_def defaultStems_def after_def turn_def polls_def
  ok_def timeout_def pollInterval_def startsWith_def AUDIOSHAKE_API_BASE_def
lemmas mock_simps = slowProcessing_def completedWithoutStemsOnce_def processingThenCompleted_def script_def punctual_def
  late_def answer_def created_def vocals_def


section \<open>Claims about separateStems\<close>

text \<open>
  C5. For every \<open>audioUrl\<close> that does not start with \<^verbatim>\<open>https://\<close>,
  \<^verbatim>\<open>separateStems\<close> fails with the precondition error and the run has no event at
  all: no POST to the task endpoint, no sleep, no GET.
\<close>

theorem non_https_url_rejected_before_any_request:
  assumes "\<not> startsWith audioUrl ''https://''"
  shows "separateStems svc audioUrl apiKey stemsArg =
           \<lparr>events = [], elapsed = 0,
            result = Inl (Error ''AudioShake requires HTTPS URLs'')\<rparr>"
  using assms by (simp add: separateStems_def)

theorem non_https_url_rejected_witness:
  "\<not> startsWith ''http://0x0.st/song.wav'' ''https://'' \<and>
   separateStems (processingThenCompleted 0 [vocals]) ''http://0x0.st/song.wav'' ''key'' None =
     \<lparr>events = [], elapsed = 0, result = Inl (Error ''AudioShake requires HTTPS URLs'')\<rparr>"
proof -
  have h: "\<not> startsWith ''http://0x0.st/song.wav'' ''https://''"
    by (simp add: startsWith_def)
  from non_https_url_rejected_before_any_request [OF h] h show ?thesis
    by simp
qed

text \<open>
  C1, as the claim states it, fails: a response with status "completed" and an empty
  array of stems ends the loop with success and no results, because the test
  \<^verbatim>\<open>status.stems\<close> is true for every array. And a response with status
  "completed" and no stems that arrives after more than 600 s is not followed by another
  poll: the run ends there with the timeout error.
\<close>

theorem completed_with_empty_stems_is_success:
  "result (separateStems (script [] (punctual (answer completed (Some []) None)))
             ''https://0x0.st/song.wav'' ''key'' None) = Inr [] \<and>
   result (separateStems (script [] (late 700000 (answer completed None None)))
             ''https://0x0.st/song.wav'' ''key'' None)
     = Inl (Error ''Task timeout after 10 minutes'') \<and>
   polls (separateStems (script [] (late 700000 (answer completed None None)))
            ''https://0x0.st/song.wav'' ''key'' None) = 1"
  by (simp add: run_simps mock_simps)

text \<open>
  C1, amended. The loop ends with success only on a response that has status
  "completed" and carries a stems array (which may be empty): when the run returns
  \<open>found\<close>, the response of its last poll is a 2xx one with status "completed" and
  stems \<open>found\<close>. For every 2xx response with status "completed" and no stems field
  the loop does not return: it goes on to the next poll when the elapsed time is at most
  600000 ms, and throws the timeout error when it is more.
\<close>

theorem success_only_on_completed_with_stems:
  "(result (pollLoop svc tid apiKey k t) = Inr found \<longrightarrow>
      ok (reply (svc (k + polls (pollLoop svc tid apiKey k t) - 1))) \<and>
      status (json (reply (svc (k + polls (pollLoop svc tid apiKey k t) - 1)))) = completed \<and>
      stems (json (reply (svc (k + polls (pollLoop svc tid apiKey k t) - 1)))) = Some found) \<and>
   (ok (reply (svc k)) \<and> status (json (reply (svc k))) = completed \<and>
    stems (json (reply (svc k))) = None \<longrightarrow>
      pollLoop svc tid apiKey k t =
        (if timeout < nowAt (svc k) t then
           \<lparr>events = turn tid apiKey, elapsed = nowAt (svc k) t,
            result = Inl (Error ''Task timeout after 10 minutes'')\<rparr>
         else after (turn tid apiKey) (pollLoop svc tid apiKey (Suc k) (nowAt (svc k) t))))"
proof (intro conjI impI)
  assume "result (pollLoop svc tid apiKey k t) = Inr found"
  from pollLoop_success_last [OF this]
  show "ok (reply (svc (k + polls (pollLoop svc tid apiKey k t) - 1)))"
    and "status (json (reply (svc (k + polls (pollLoop svc tid apiKey k t) - 1)))) = completed"
    and "stems (json (reply (svc (k + polls (pollLoop svc tid apiKey k t) - 1)))) = Some found"
    by simp_all
next
  assume a: "ok (reply (svc k)) \<and> status (json (reply (svc k))) = completed \<and>
             stems (json (reply (svc k))) = None"
  show "pollLoop svc tid apiKey k t =
        (if timeout < nowAt (svc k) t then
           \<lparr>events = turn tid apiKey, elapsed = nowAt (svc k) t,
            result = Inl (Error ''Task timeout after 10 minutes'')\<rparr>
         else after (turn tid apiKey) (pollLoop svc tid apiKey (Suc k) (nowAt (svc k) t)))"
  proof (cases "timeout < nowAt (svc k) t")
    case True
    with a have "loopBody (nowAt (svc k) t) (reply (svc k)) =
                   Throw (Error ''Task timeout after 10 minutes'')"
      by (simp add: loopBody_def)
    with True show ?thesis
      by (simp add: pollLoop_Throw)
  next
    case False
    with a have "loopBody (nowAt (svc k) t) (reply (svc k)) = Continue"
      by (simp add: loopBody_def)
    with False show ?thesis
      by (simp add: pollLoop_Continue)
  qed
qed

theorem success_only_on_completed_with_stems_witness:
  "result (pollLoop (poll completedWithoutStemsOnce) ''task-1'' ''key'' 0 0) = Inr [vocals] \<and>
   polls (pollLoop (poll completedWithoutStemsOnce) ''task-1'' ''key'' 0 0) = 2 \<and>
   stems (json (reply (poll completedWithoutStemsOnce 1))) = Some [vocals] \<and>
   ok (reply (poll completedWithoutStemsOnce 0)) \<and>
   status (json (reply (poll completedWithoutStemsOnce 0))) = completed \<and>
   stems (json (reply (poll completedWithoutStemsOnce 0))) = None \<and>
   pollLoop (poll completedWithoutStemsOnce) ''task-1'' ''key'' 0 0 =
     after (turn ''task-1'' ''key'')
       (pollLoop (poll completedWithoutStemsOnce) ''task-1'' ''key'' 1 5000)"
proof -
  let ?svc = "poll completedWithoutStemsOnce"
  have r: "result (pollLoop ?svc ''task-1'' ''key'' 0 0) = Inr [vocals]"
    by (simp add: run_simps mock_simps)
  have n: "polls (pollLoop ?svc ''task-1'' ''key'' 0 0) = 2"
    by (simp add: run_simps mock_simps)
  have p: "ok (reply (?svc 0)) \<and> status (json (reply (?svc 0))) = completed \<and>
           stems (json (reply (?svc 0))) = None"
    by (simp add: run_simps mock_simps)
  have c: "nowAt (?svc 0) 0 = 5000"
    by (simp add: run_simps mock_simps)
  from success_only_on_completed_with_stems [of ?svc "''task-1''" "''key''" 0 0 "[vocals]"] r n p c
  show ?thesis
    by (simp add: timeout_def)
qed

text \<open>
  C7, as the claim states it, fails when the service sends the error field with the empty
  text: \<^verbatim>\<open>status.error || 'Unknown error'\<close> takes the generic text for it.
\<close>

theorem empty_error_text_gives_generic_message:
  "error (json (reply (punctual (answer failed None (Some []))))) = Some [] \<and>
   result (separateStems (script [] (punctual (answer failed None (Some []))))
             ''https://0x0.st/song.wav'' ''key'' None)
     = Inl (Error ''Stem separation failed: Unknown error'') \<and>
   result (separateStems (script [] (punctual (answer failed None (Some []))))
             ''https://0x0.st/song.wav'' ''key'' None)
     \<noteq> Inl (Error (''Stem separation failed: '' @ []))"
  by (simp add: run_simps mock_simps)

text \<open>
  C7, amended. For every 2xx poll response with status "failed", whatever the elapsed
  time, the loop ends at that poll with the error "Stem separation failed: " followed by
  the service's error text when that is present and not empty, and by "Unknown error"
  when the error field is absent or empty.
\<close>

theorem failed_status_throws_with_message:
  assumes "ok (reply (svc k))" and "status (json (reply (svc k))) = failed"
  shows "pollLoop svc tid apiKey k t =
           \<lparr>events = turn tid apiKey, elapsed = nowAt (svc k) t,
            result = Inl (Error (''Stem separation failed: '' @
                       (case error (json (reply (svc k))) of
                          None \<Rightarrow> ''Unknown error''
                        | Some e \<Rightarrow> if e = [] then ''Unknown error'' else e)))\<rparr>"
proof -
  from assms have "loopBody (nowAt (svc k) t) (reply (svc k)) =
      Throw (Error (''Stem separation failed: '' @
                       (case error (json (reply (svc k))) of
                          None \<Rightarrow> ''Unknown error''
                        | Some e \<Rightarrow> if e = [] then ''Unknown error'' else e)))"
    by (simp add: loopBody_def)
  then show ?thesis
    by (rule pollLoop_Throw)
qed

theorem failed_status_throws_with_message_witness:
  "ok (reply (punctual (answer failed None (Some ''bad audio'')))) \<and>
   status (json (reply (punctual (answer failed None (Some ''bad audio''))))) = failed \<and>
   result (pollLoop (\<lambda>k. punctual (answer failed None (Some ''bad audio''))) ''task-1'' ''key'' 0 0)
     = Inl (Error ''Stem separation failed: bad audio'')"
proof -
  let ?svc = "\<lambda>k::nat. punctual (answer failed None (Some ''bad audio''))"
  have a: "ok (reply (?svc 0))" and b: "status (json (reply (?svc 0))) = failed"
    by (simp_all add: run_simps mock_simps)
  from failed_status_throws_with_message [of ?svc 0 "''task-1''" "''key''" 0, OF a b] a b
  show ?thesis
    by (simp add: mock_simps)
qed

text \<open>
  C3, as the claim states it, fails: the budget is tested after the tests for
  "completed" and "failed", so a response that arrives 705 s after submission with
  status "completed" and stems is returned as a success, and one with status "failed"
  ends the run with the failure error.
\<close>

theorem late_completed_response_still_succeeds:
  "elapsed (separateStems (script [] (late 700000 (answer completed (Some [vocals]) None)))
              ''https://0x0.st/song.wav'' ''key'' None) = 705000 \<and>
   result (separateStems (script [] (late 700000 (answer completed (Some [vocals]) None)))
             ''https://0x0.st/song.wav'' ''key'' None) = Inr [vocals] \<and>
   elapsed (separateStems (script [] (late 700000 (answer failed None (Some ''bad audio''))))
              ''https://0x0.st/song.wav'' ''key'' None) = 705000 \<and>
   result (separateStems (script [] (late 700000 (answer failed None (Some ''bad audio''))))
             ''https://0x0.st/song.wav'' ''key'' None)
     = Inl (Error ''Stem separation failed: bad audio'')"
  by (simp add: run_simps mock_simps)

text \<open>
  C3, amended. The budget is 600000 ms counted from \<^verbatim>\<open>startTime\<close>, which is
  read once after submission: the time that is compared with it at poll \<open>j\<close> of a run
  of \<^verbatim>\<open>separateStems\<close> is the sum of all sleeps and requests since then
  (\<open>startOf (poll svc) (Suc j)\<close>), not the time since the poll before. It is tested
  once per turn, after the poll has answered. At every poll of a run where that time is
  more than 600000 ms the run ends with that poll: with the timeout error when the
  response is a 2xx one with status "pending", "processing", "cancelled", or "completed"
  without stems; with the stems when it is "completed" with stems; with the failure
  error when it is "failed"; with the status-check error when it is not a 2xx response.
  So no run makes more than 121 polls.
\<close>

theorem budget_counts_from_startTime:
  "polls (separateStems svc audioUrl apiKey stemsArg) \<le> 121 \<and>
   (j < polls (separateStems svc audioUrl apiKey stemsArg) \<and>
    timeout < startOf (poll svc) (Suc j) \<longrightarrow>
      polls (separateStems svc audioUrl apiKey stemsArg) = Suc j \<and>
      elapsed (separateStems svc audioUrl apiKey stemsArg) = startOf (poll svc) (Suc j) \<and>
      (ok (reply (poll svc j)) \<and>
       (status (json (reply (poll svc j))) = pending \<or>
        status (json (reply (poll svc j))) = processing \<or>
        status (json (reply (poll svc j))) = cancelled \<or>
        status (json (reply (poll svc j))) = completed \<and>
        stems (json (reply (poll svc j))) = None) \<longrightarrow>
         result (separateStems svc audioUrl apiKey stemsArg) =
           Inl (Error ''Task timeout after 10 minutes'')) \<and>
      (ok (reply (poll svc j)) \<and> status (json (reply (poll svc j))) = completed \<and>
       stems (json (reply (poll svc j))) = Some found \<longrightarrow>
         result (separateStems svc audioUrl apiKey stemsArg) = Inr found) \<and>
      (ok (reply (poll svc j)) \<and> status (json (reply (poll svc j))) = failed \<longrightarrow>
         (\<exists>m. result (separateStems svc audioUrl apiKey stemsArg) =
                Inl (Error (''Stem separation failed: '' @ m)))) \<and>
      (\<not> ok (reply (poll svc j)) \<longrightarrow>
         (\<exists>m. result (separateStems svc audioUrl apiKey stemsArg) =
                Inl (Error (''Failed to check task status ('' @ m)))))"
proof -
  let ?body = "createBody audioUrl
                 (case stemsArg of None \<Rightarrow> defaultStems | Some names \<Rightarrow> names)"
  let ?tid = "json (create svc ?body apiKey)"
  let ?run = "separateStems svc audioUrl apiKey stemsArg"
  let ?loop = "pollLoop (poll svc) ?tid apiKey 0 0"
  show ?thesis
  proof (cases "startsWith audioUrl ''https://'' \<and> ok (create svc ?body apiKey)")
    case False
    then have "polls ?run = 0"
      by (auto simp: separateStems_def Let_def polls_def)
    then show ?thesis
      by simp
  next
    case True
    then have run: "?run = after [Post AUDIOSHAKE_API_BASE ?body apiKey] ?loop"
      by (intro separateStems_enters_loop) simp_all
    have p: "polls ?run = polls ?loop"
      by (simp only: run polls_after_Post)
    have e: "elapsed ?run = elapsed ?loop"
      by (simp only: run elapsed_after)
    have r: "result ?run = result ?loop"
      by (simp only: run result_after)
    have bound: "polls ?loop \<le> 121"
      by (rule pollLoop_at_most_121)
    have last: "polls ?loop = Suc j \<and> elapsed ?loop = startOf (poll svc) (Suc j) \<and>
      (ok (reply (poll svc j)) \<and>
       (status (json (reply (poll svc j))) = pending \<or>
        status (json (reply (poll svc j))) = processing \<or>
        status (json (reply (poll svc j))) = cancelled \<or>
        status (json (reply (poll svc j))) = completed \<and>
        stems (json (reply (poll svc j))) = None) \<longrightarrow>
         result ?loop = Inl (Error ''Task timeout after 10 minutes'')) \<and>
      (ok (reply (poll svc j)) \<and> status (json (reply (poll svc j))) = completed \<and>
       stems (json (reply (poll svc j))) = Some found \<longrightarrow>
         result ?loop = Inr found) \<and>
      (ok (reply (poll svc j)) \<and> status (json (reply (poll svc j))) = failed \<longrightarrow>
         (\<exists>m. result ?loop = Inl (Error (''Stem separation failed: '' @ m)))) \<and>
      (\<not> ok (reply (poll svc j)) \<longrightarrow>
         (\<exists>m. result ?loop = Inl (Error (''Failed to check task status ('' @ m))))"
      if j: "j < polls ?loop" and over: "timeout < startOf (poll svc) (Suc j)"
    proof -
      note last = pollLoop_over_budget [OF j over]
      note body = loopBody_over_budget [OF over, of "reply (poll svc j)" found]
      from last(3) body show ?thesis
        unfolding last(1) last(2)
        by (cases "loopBody (startOf (poll svc) (Suc j)) (reply (poll svc j))")
           (auto simp del: startOf.simps)
    qed
    from bound last show ?thesis
      unfolding p e r by blast
  qed
qed

theorem budget_counts_from_startTime_witness:
  "startOf (poll slowProcessing) 1 = 405000 \<and> startOf (poll slowProcessing) 2 = 810000 \<and>
   polls (separateStems slowProcessing ''https://0x0.st/song.wav'' ''key'' None) = 2 \<and>
   elapsed (separateStems slowProcessing ''https://0x0.st/song.wav'' ''key'' None) = 810000 \<and>
   result (separateStems slowProcessing ''https://0x0.st/song.wav'' ''key'' None)
     = Inl (Error ''Task timeout after 10 minutes'')"
proof -
  let ?run = "separateStems slowProcessing ''https://0x0.st/song.wav'' ''key'' None"
  have s1: "startOf (poll slowProcessing) 1 = 405000"
    by (simp add: run_simps mock_simps)
  have s2: "startOf (poll slowProcessing) (Suc 1) = 810000"
    by (simp add: run_simps mock_simps)
  have a: "1 < polls ?run"
    by (simp add: run_simps mock_simps)
  have b: "ok (reply (poll slowProcessing 1)) \<and>
           status (json (reply (poll slowProcessing 1))) = processing"
    by (simp add: run_simps mock_simps)
  from budget_counts_from_startTime
         [of slowProcessing "''https://0x0.st/song.wav''" "''key''" None 1 "[]"] a b s2
  have "polls ?run = 2 \<and> elapsed ?run = 810000 \<and>
        result ?run = Inl (Error ''Task timeout after 10 minutes'')"
    by (simp add: timeout_def del: startOf.simps)
  moreover from s2 have "startOf (poll slowProcessing) 2 = 810000"
    by (simp only: Suc_1)
  ultimately show ?thesis
    using s1 by (simp only:)
qed

text \<open>
  C2. The loop has no branch for the status "cancelled": a service that answers every
  poll with status "cancelled", on a clock with no delay beyond the timer, is polled 121
  times, and the run ends 605 s after submission with the timeout error.
\<close>

theorem cancelled_is_polled_until_timeout:
  "result (separateStems alwaysCancelled ''https://0x0.st/song.wav'' ''key'' None)
     = Inl (Error ''Task timeout after 10 minutes'') \<and>
   polls (separateStems alwaysCancelled ''https://0x0.st/song.wav'' ''key'' None) = 121 \<and>
   elapsed (separateStems alwaysCancelled ''https://0x0.st/song.wav'' ''key'' None) = 605000"
proof -
  let ?svc = "poll alwaysCancelled"
  have loop: "pollLoop ?svc ''task-1'' ''key'' 0 0 =
           after (concat (replicate 120 (turn ''task-1'' ''key'')))
             \<lparr>events = turn ''task-1'' ''key'', elapsed = 605000,
              result = Inl (Error ''Task timeout after 10 minutes'')\<rparr>"
    by (rule punctual_waiting_times_out)
       (simp_all add: alwaysCancelled_def script_def punctual_def answer_def ok_def)
  moreover have "separateStems alwaysCancelled ''https://0x0.st/song.wav'' ''key'' None =
      after [Post AUDIOSHAKE_API_BASE (createBody ''https://0x0.st/song.wav'' defaultStems) ''key'']
        (pollLoop ?svc ''task-1'' ''key'' 0 0)"
    by (simp add: separateStems_def startsWith_def alwaysCancelled_def script_def created_def
          ok_def)
  ultimately have run: "separateStems alwaysCancelled ''https://0x0.st/song.wav'' ''key'' None =
      after [Post AUDIOSHAKE_API_BASE (createBody ''https://0x0.st/song.wav'' defaultStems) ''key'']
        (after (concat (replicate 120 (turn ''task-1'' ''key'')))
             \<lparr>events = turn ''task-1'' ''key'', elapsed = 605000,
              result = Inl (Error ''Task timeout after 10 minutes'')\<rparr>)"
    by simp
  have "polls (pollLoop ?svc ''task-1'' ''key'' 0 0) = 121"
    by (simp only: loop polls_after_turns) (simp add: polls_def turn_def)
  then have "polls (separateStems alwaysCancelled ''https://0x0.st/song.wav'' ''key'' None) = 121"
    by (simp only: run loop [symmetric] polls_after_Post)
  with run show ?thesis
    by (simp add: result_after elapsed_after)
qed

text \<open>
  C6, as the claim states it, fails for large \<open>N\<close>: with 121 polls answered
  "processing", each exactly 5 s after the one before, the elapsed time at the 121st poll
  is 605 s and the loop throws the timeout error; the stems of the 122nd response are
  never fetched.
\<close>

theorem too_many_processing_polls_time_out:
  "result (separateStems (processingThenCompleted 121 [vocals]) ''https://0x0.st/song.wav''
             ''key'' None)
     = Inl (Error ''Task timeout after 10 minutes'')"
proof -
  let ?svc = "poll (processingThenCompleted 121 [vocals])"
  have "pollLoop ?svc ''task-1'' ''key'' 0 0 =
           after (concat (replicate 120 (turn ''task-1'' ''key'')))
             \<lparr>events = turn ''task-1'' ''key'', elapsed = 605000,
              result = Inl (Error ''Task timeout after 10 minutes'')\<rparr>"
    by (rule punctual_waiting_times_out)
       (simp_all add: processingThenCompleted_def poll_script_replicate punctual_def answer_def
          ok_def)
  moreover have "separateStems (processingThenCompleted 121 [vocals]) ''https://0x0.st/song.wav''
             ''key'' None =
      after [Post AUDIOSHAKE_API_BASE (createBody ''https://0x0.st/song.wav'' defaultStems) ''key'']
        (pollLoop ?svc ''task-1'' ''key'' 0 0)"
    by (simp add: separateStems_def startsWith_def processingThenCompleted_def script_def
          created_def ok_def)
  ultimately show ?thesis
    by (simp add: result_after)
qed

text \<open>
  C6, amended. For every \<open>N\<close>, if the service answers "processing" to the first
  \<open>N\<close> polls and "completed" with one stem result to the next, and the elapsed time
  read at each of the \<open>N\<close> "processing" polls is at most 600000 ms (on a clock with no
  delay beyond the timer: \<open>N \<le> 120\<close>), then \<^verbatim>\<open>separateStems\<close> returns exactly that
  stem result after \<open>N + 1\<close> polls, each of them after a sleep of 5000 ms, so that at
  least 5 times \<open>N\<close> seconds have passed.
\<close>

theorem processing_n_times_then_completed:
  assumes "startsWith audioUrl ''https://''"
    and "ok (create svc (createBody audioUrl
               (case stemsArg of None \<Rightarrow> defaultStems | Some names \<Rightarrow> names)) apiKey)"
    and "\<forall>j<n. ok (reply (poll svc j)) \<and> status (json (reply (poll svc j))) = processing"
    and "ok (reply (poll svc n))"
    and "status (json (reply (poll svc n))) = completed"
    and "stems (json (reply (poll svc n))) = Some [stem]"
    and "\<forall>j<n. startOf (poll svc) (Suc j) \<le> timeout"
  shows "result (separateStems svc audioUrl apiKey stemsArg) = Inr [stem] \<and>
         polls (separateStems svc audioUrl apiKey stemsArg) = n + 1 \<and>
         events (separateStems svc audioUrl apiKey stemsArg) =
           Post AUDIOSHAKE_API_BASE
             (createBody audioUrl
                (case stemsArg of None \<Rightarrow> defaultStems | Some names \<Rightarrow> names)) apiKey #
           concat (replicate (n + 1)
             [Sleep 5000,
              Get (AUDIOSHAKE_API_BASE @ ''/'' @
                     json (create svc (createBody audioUrl
                       (case stemsArg of None \<Rightarrow> defaultStems | Some names \<Rightarrow> names)) apiKey))
                apiKey]) \<and>
         elapsed (separateStems svc audioUrl apiKey stemsArg) = startOf (poll svc) (n + 1) \<and>
         5000 * n \<le> elapsed (separateStems svc audioUrl apiKey stemsArg)"
proof -
  let ?body = "createBody audioUrl
                 (case stemsArg of None \<Rightarrow> defaultStems | Some names \<Rightarrow> names)"
  let ?tid = "json (create svc ?body apiKey)"
  let ?last = "\<lparr>events = turn ?tid apiKey, elapsed = startOf (poll svc) (Suc n),
                result = Inr [stem]\<rparr>"
  have "\<forall>j<n. loopBody (startOf (poll svc) (Suc j)) (reply (poll svc j)) = Continue"
    using assms(3,7) by (auto intro: loopBody_waiting)
  then have prefix: "pollLoop (poll svc) ?tid apiKey 0 0 =
      after (concat (replicate n (turn ?tid apiKey)))
        (pollLoop (poll svc) ?tid apiKey n (startOf (poll svc) n))"
    by (rule pollLoop_prefix)
  have "loopBody (nowAt (poll svc n) (startOf (poll svc) n)) (reply (poll svc n)) = Return [stem]"
    using assms(4-6) by (simp add: loopBody_Return)
  then have "pollLoop (poll svc) ?tid apiKey n (startOf (poll svc) n) = ?last"
    by (simp add: pollLoop_Return)
  with prefix have loop: "pollLoop (poll svc) ?tid apiKey 0 0 =
      after (concat (replicate n (turn ?tid apiKey))) ?last"
    by simp
  have run: "separateStems svc audioUrl apiKey stemsArg =
      after [Post AUDIOSHAKE_API_BASE ?body apiKey]
        (after (concat (replicate n (turn ?tid apiKey))) ?last)"
    using separateStems_enters_loop [OF assms(1,2)] loop by simp
  have "polls (pollLoop (poll svc) ?tid apiKey 0 0) = n + 1"
    by (simp only: loop polls_after_turns) (simp add: polls_def turn_def)
  then have p: "polls (separateStems svc audioUrl apiKey stemsArg) = n + 1"
    by (simp only: run loop [symmetric] polls_after_Post)
  have e: "events (separateStems svc audioUrl apiKey stemsArg) =
      Post AUDIOSHAKE_API_BASE ?body apiKey # concat (replicate (n + 1) (turn ?tid apiKey))"
    by (simp only: run events_after)
       (simp add: concat_replicate_snoc [symmetric] del: replicate_Suc)
  have "pollInterval * Suc n \<le> startOf (poll svc) (Suc n)"
    by (rule startOf_lower)
  then have t: "5000 * n \<le> startOf (poll svc) (Suc n)"
    by (simp add: pollInterval_def)
  from p e t show ?thesis
    by (simp add: run result_after elapsed_after turn_def pollInterval_def)
qed

theorem processing_n_times_then_completed_witness:
  "result (separateStems (processingThenCompleted 120 [vocals]) ''https://0x0.st/song.wav''
             ''key'' None) = Inr [vocals] \<and>
   polls (separateStems (processingThenCompleted 120 [vocals]) ''https://0x0.st/song.wav''
            ''key'' None) = 121 \<and>
   elapsed (separateStems (processingThenCompleted 120 [vocals]) ''https://0x0.st/song.wav''
              ''key'' None) = 605000"
proof -
  let ?svc = "processingThenCompleted 120 [vocals]"
  have a: "startsWith ''https://0x0.st/song.wav'' ''https://''"
    by (simp add: startsWith_def)
  have b: "ok (create ?svc (createBody ''https://0x0.st/song.wav''
               (case None of None \<Rightarrow> defaultStems | Some names \<Rightarrow> names)) ''key'')"
    by (simp add: processingThenCompleted_def script_def created_def ok_def)
  have c: "\<forall>j<120. ok (reply (poll ?svc j)) \<and> status (json (reply (poll ?svc j))) = processing"
    by (simp add: processingThenCompleted_def poll_script_replicate punctual_def answer_def ok_def)
  have d: "ok (reply (poll ?svc 120))" "status (json (reply (poll ?svc 120))) = completed"
    "stems (json (reply (poll ?svc 120))) = Some [vocals]"
    by (simp_all add: processingThenCompleted_def poll_script_replicate punctual_def answer_def
          ok_def)
  have e: "\<forall>j<120. startOf (poll ?svc) (Suc j) \<le> timeout"
    by (simp add: startOf_processingThenCompleted timeout_def del: startOf.simps)
  from processing_n_times_then_completed [OF a b c d e]
  show ?thesis
    by (simp add: startOf_processingThenCompleted del: startOf.simps)
qed

text \<open>
  C10. Every turn of the loop sleeps the full 5000 ms before it issues its GET, the first
  turn too: when the loop is entered, the events after the POST are, for each poll, a
  sleep of 5000 ms and then the GET, and the elapsed time at the end is at least 5000 ms
  per poll. So a run that returns stems, or that ends in a turn of the loop, ends no
  earlier than 5 s after \<^verbatim>\<open>startTime\<close>, also when the first response is already
  "completed".
\<close>

theorem every_poll_follows_a_full_sleep:
  "(startsWith audioUrl ''https://'' \<and>
    ok (create svc (createBody audioUrl
          (case stemsArg of None \<Rightarrow> defaultStems | Some names \<Rightarrow> names)) apiKey) \<longrightarrow>
      1 \<le> polls (separateStems svc audioUrl apiKey stemsArg) \<and>
      events (separateStems svc audioUrl apiKey stemsArg) =
        Post AUDIOSHAKE_API_BASE
          (createBody audioUrl
             (case stemsArg of None \<Rightarrow> defaultStems | Some names \<Rightarrow> names)) apiKey #
        concat (replicate (polls (separateStems svc audioUrl apiKey stemsArg))
          [Sleep 5000,
           Get (AUDIOSHAKE_API_BASE @ ''/'' @
                  json (create svc (createBody audioUrl
                    (case stemsArg of None \<Rightarrow> defaultStems | Some names \<Rightarrow> names)) apiKey))
             apiKey]) \<and>
      5000 * polls (separateStems svc audioUrl apiKey stemsArg)
        \<le> elapsed (separateStems svc audioUrl apiKey stemsArg)) \<and>
   (result (separateStems svc audioUrl apiKey stemsArg) = Inr found \<longrightarrow>
      1 \<le> polls (separateStems svc audioUrl apiKey stemsArg) \<and>
      5000 \<le> elapsed (separateStems svc audioUrl apiKey stemsArg)) \<and>
   (1 \<le> polls (separateStems svc audioUrl apiKey stemsArg) \<longrightarrow>
      5000 \<le> elapsed (separateStems svc audioUrl apiKey stemsArg))"
proof -
  let ?body = "createBody audioUrl
                 (case stemsArg of None \<Rightarrow> defaultStems | Some names \<Rightarrow> names)"
  let ?tid = "json (create svc ?body apiKey)"
  let ?run = "separateStems svc audioUrl apiKey stemsArg"
  let ?loop = "pollLoop (poll svc) ?tid apiKey 0 0"
  have entered: "1 \<le> polls ?run \<and>
      events ?run = Post AUDIOSHAKE_API_BASE ?body apiKey #
        concat (replicate (polls ?run) (turn ?tid apiKey)) \<and>
      5000 * polls ?run \<le> elapsed ?run"
    if "startsWith audioUrl ''https://''" and "ok (create svc ?body apiKey)"
  proof -
    from that have run: "?run = after [Post AUDIOSHAKE_API_BASE ?body apiKey] ?loop"
      by (rule separateStems_enters_loop)
    have p: "polls ?run = polls ?loop"
      by (simp only: run polls_after_Post)
    from pollLoop_shape [of "poll svc" ?tid apiKey 0 0] show ?thesis
      by (simp add: p) (simp add: run events_after elapsed_after pollInterval_def)
  qed
  have not_entered: "polls ?run = 0 \<and> (\<exists>e. result ?run = Inl e)"
    if "\<not> (startsWith audioUrl ''https://'' \<and> ok (create svc ?body apiKey))"
    using that by (auto simp: separateStems_def Let_def polls_def)
  have late: "5000 \<le> elapsed ?run" if "1 \<le> polls ?run"
  proof -
    from that not_entered
    have "startsWith audioUrl ''https://''" and "ok (create svc ?body apiKey)"
      by auto
    from entered [OF this] that show ?thesis
      by simp
  qed
  have success: "1 \<le> polls ?run" if "result ?run = Inr found"
  proof (rule ccontr)
    assume "\<not> 1 \<le> polls ?run"
    with entered have "\<not> (startsWith audioUrl ''https://'' \<and> ok (create svc ?body apiKey))"
      by auto
    from not_entered [OF this] that show False
      by auto
  qed
  from entered late success show ?thesis
    by (simp add: turn_def pollInterval_def)
qed

theorem every_poll_follows_a_full_sleep_witness:
  "startsWith ''https://0x0.st/song.wav'' ''https://'' \<and>
   separateStems (processingThenCompleted 0 [vocals]) ''https://0x0.st/song.wav'' ''key'' None =
     \<lparr>events =
        [Post ''https://api.audioshake.ai/tasks''
           \<lparr>url = ''https://0x0.st/song.wav'',
            targets = [\<lparr>target_model = ''vocals'', formats = [''wav'']\<rparr>,
                       \<lparr>target_model = ''instrumental'', formats = [''wav'']\<rparr>]\<rparr> ''key'',
         Sleep 5000,
         Get ''https://api.audioshake.ai/tasks/task-1'' ''key''],
      elapsed = 5000, result = Inr [vocals]\<rparr> \<and>
   polls (separateStems (processingThenCompleted 0 [vocals]) ''https://0x0.st/song.wav'' ''key''
            None) = 1"
proof -
  let ?svc = "processingThenCompleted 0 [vocals]"
  let ?run = "separateStems ?svc ''https://0x0.st/song.wav'' ''key'' None"
  have a: "startsWith ''https://0x0.st/song.wav'' ''https://''"
    by (simp add: startsWith_def)
  have b: "ok (create ?svc (createBody ''https://0x0.st/song.wav''
               (case None of None \<Rightarrow> defaultStems | Some names \<Rightarrow> names)) ''key'')"
    by (simp add: processingThenCompleted_def script_def created_def ok_def)
  have r: "?run = \<lparr>events =
        [Post ''https://api.audioshake.ai/tasks''
           \<lparr>url = ''https://0x0.st/song.wav'',
            targets = [\<lparr>target_model = ''vocals'', formats = [''wav'']\<rparr>,
                       \<lparr>target_model = ''instrumental'', formats = [''wav'']\<rparr>]\<rparr> ''key'',
         Sleep 5000,
         Get ''https://api.audioshake.ai/tasks/task-1'' ''key''],
      elapsed = 5000, result = Inr [vocals]\<rparr>"
    by (simp add: run_simps mock_simps)
  have "1 \<le> polls ?run"
    using every_poll_follows_a_full_sleep [of "''https://0x0.st/song.wav''" ?svc None "''key''" "[vocals]"]
      a b by simp
  moreover have "polls ?run \<le> 1"
    by (simp only: r) (simp add: polls_def)
  ultimately have "polls ?run = 1"
    by simp
  with a r show ?thesis
    by simp
qed

section \<open>Claims about index.ts\<close>

lemma lowerChar_eq_iff:
  assumes "\<not> isUpper b"
  shows "lowerChar a = b \<longleftrightarrow> sameLetter a b"
proof (cases "isUpper a")
  case True
  then have less: "of_char a + (32::nat) < 256"
    by (simp add: isUpper_def)
  have "of_char (char_of (of_char a + (32::nat))) = (of_char a + 32 :: nat)"
    using less by (simp add: of_char_of)
  then have "char_of (of_char a + (32::nat)) = b \<longleftrightarrow> (of_char b :: nat) = of_char a + 32"
    by (metis char_of_char)
  with True assms show ?thesis
    by (auto simp: lowerChar_def sameLetter_def isUpper_def)
next
  case False
  with assms show ?thesis
    by (auto simp: lowerChar_def sameLetter_def isUpper_def)
qed

lemma toLowerCase_eq_iff:
  assumes "\<forall>c\<in>set t. \<not> isUpper c"
  shows "toLowerCase s = t \<longleftrightarrow> equalIgnoringCase s t"
  using assms
proof (induction s arbitrary: t)
  case Nil
  show ?case by (auto simp: toLowerCase_def equalIgnoringCase_def)
next
  case (Cons a s)
  show ?case
  proof (cases t)
    case Nil
    then show ?thesis by (simp add: toLowerCase_def equalIgnoringCase_def)
  next
    case (Cons b t')
    with Cons.prems have "\<not> isUpper b" and "\<forall>c\<in>set t'. \<not> isUpper c"
      by simp_all
    with Cons.IH [of t'] Cons show ?thesis
      by (simp add: toLowerCase_def equalIgnoringCase_def lowerChar_eq_iff)
  qed
qed

lemma supported_lower: "\<forall>t\<in>set SUPPORTED_AUDIO_EXTENSIONS. \<forall>c\<in>set t. \<not> isUpper c"
  by (simp add: SUPPORTED_AUDIO_EXTENSIONS_def isUpper_def)

lemma supported_names: "SUPPORTED_AUDIO_EXTENSIONS = map ((#) CHR ''.'') supportedNames"
  by (simp add: SUPPORTED_AUDIO_EXTENSIONS_def supportedNames_def)

text \<open>
  C9. \<^verbatim>\<open>isSupportedAudioFile\<close> is true exactly for the paths whose extension, as
  \<^verbatim>\<open>extname\<close> gives it, is a dot followed by one of mp3, wav, flac, aac, ogg, m4a,
  wma, aiff, alac, opus, compared without regard to case; it is false for every other
  path.
\<close>

theorem isSupportedAudioFile_iff:
  "isSupportedAudioFile ext filePath \<longleftrightarrow>
     (\<exists>e\<in>set supportedNames. equalIgnoringCase (ext filePath) (CHR ''.'' # e))"
proof -
  have "isSupportedAudioFile ext filePath \<longleftrightarrow>
          (\<exists>t\<in>set SUPPORTED_AUDIO_EXTENSIONS. toLowerCase (ext filePath) = t)"
    by (simp add: isSupportedAudioFile_def)
  also have "\<dots> \<longleftrightarrow>
          (\<exists>t\<in>set SUPPORTED_AUDIO_EXTENSIONS. equalIgnoringCase (ext filePath) t)"
    using supported_lower by (metis toLowerCase_eq_iff)
  also have "\<dots> \<longleftrightarrow>
          (\<exists>e\<in>set supportedNames. equalIgnoringCase (ext filePath) (CHR ''.'' # e))"
    by (simp add: supported_names)
  finally show ?thesis .
qed

theorem isSupportedAudioFile_witness:
  "isSupportedAudioFile sampleExtname ''song.MP3'' \<and>
   \<not> isSupportedAudioFile sampleExtname ''notes.txt''"
proof -
  have a: "\<exists>e\<in>set supportedNames. equalIgnoringCase (sampleExtname ''song.MP3'') (CHR ''.'' # e)"
    by (simp add: supportedNames_def sampleExtname_def equalIgnoringCase_def sameLetter_def
          isUpper_def)
  have b: "\<not> (\<exists>e\<in>set supportedNames.
                 equalIgnoringCase (sampleExtname ''notes.txt'') (CHR ''.'' # e))"
    by (simp add: supportedNames_def sampleExtname_def equalIgnoringCase_def sameLetter_def
          isUpper_def)
  from a b show ?thesis
    by (simp only: isSupportedAudioFile_iff) simp
qed

lemma replace_prefix: "startsWith s pat \<Longrightarrow> replace s pat rep = rep @ drop (length pat) s"
  by (cases s) (auto simp: startsWith_def)

lemma upgradeAudioUrl_eq:
  "upgradeAudioUrl uploaded =
     (if startsWith uploaded ''http://'' then Inr (''https://'' @ drop 7 uploaded)
      else if startsWith uploaded ''https://'' then Inr uploaded
      else Inl (Error ''Invalid URL format - AudioShake requires HTTPS URLs''))"
proof (cases "startsWith uploaded ''http://''")
  case True
  have "length ''http://'' = 7"
    by simp
  with replace_prefix [OF True, of "''https://''"]
  have "replace uploaded ''http://'' ''https://'' = ''https://'' @ drop 7 uploaded"
    by (simp only:)
  with True show ?thesis
    by (simp add: upgradeAudioUrl_def) (simp add: startsWith_def)
next
  case False
  then show ?thesis
    by (simp add: upgradeAudioUrl_def)
qed

lemma main_after_upload:
  assumes "Upload wavPath \<in> set (stages (main w))"
    and "uploadFileTemporary w wavPath = Inr uploaded"
  shows "(\<forall>e. upgradeAudioUrl uploaded = Inl e \<longrightarrow>
            exitCode (main w) = 1 \<and> (\<forall>a k. Separate a k \<notin> set (stages (main w)))) \<and>
         (\<forall>a k. Separate a k \<in> set (stages (main w)) \<longrightarrow> upgradeAudioUrl uploaded = Inr a)"
proof (cases "parseExit w")
  case None
  with assms show ?thesis
    by (auto simp: main_def Let_def split: if_splits sum.splits)
next
  case (Some code)
  with assms show ?thesis
    by (simp add: main_def)
qed

text \<open>
  C8. After the upload stage an address that begins with \<^verbatim>\<open>http://\<close> is changed
  to begin with \<^verbatim>\<open>https://\<close>, the rest of it unchanged; an address that then does
  not begin with \<^verbatim>\<open>https://\<close> is an error. In every run in which the upload stage
  ran and returned an address: when the upgraded address does not begin with
  \<^verbatim>\<open>https://\<close> the process ends with status 1 and the stem-separation stage does
  not run, and when that stage runs it is given the upgraded address.
\<close>

theorem uploaded_url_upgraded_or_rejected:
  "upgradeAudioUrl uploaded =
     (if startsWith uploaded ''http://'' then Inr (''https://'' @ drop 7 uploaded)
      else if startsWith uploaded ''https://'' then Inr uploaded
      else Inl (Error ''Invalid URL format - AudioShake requires HTTPS URLs'')) \<and>
   (Upload wavPath \<in> set (stages (main w)) \<and> uploadFileTemporary w wavPath = Inr uploaded \<longrightarrow>
      (\<not> startsWith (if startsWith uploaded ''http://'' then ''https://'' @ drop 7 uploaded
                       else uploaded) ''https://'' \<longrightarrow>
         exitCode (main w) = 1 \<and> (\<forall>a k. Separate a k \<notin> set (stages (main w)))) \<and>
      (\<forall>a k. Separate a k \<in> set (stages (main w)) \<longrightarrow>
         a = (if startsWith uploaded ''http://'' then ''https://'' @ drop 7 uploaded
              else uploaded) \<and>
         startsWith a ''https://''))"
proof (intro conjI impI)
  show "upgradeAudioUrl uploaded =
     (if startsWith uploaded ''http://'' then Inr (''https://'' @ drop 7 uploaded)
      else if startsWith uploaded ''https://'' then Inr uploaded
      else Inl (Error ''Invalid URL format - AudioShake requires HTTPS URLs''))"
    by (rule upgradeAudioUrl_eq)
next
  assume up: "Upload wavPath \<in> set (stages (main w)) \<and>
              uploadFileTemporary w wavPath = Inr uploaded"
    and bad: "\<not> startsWith (if startsWith uploaded ''http://'' then ''https://'' @ drop 7 uploaded
                       else uploaded) ''https://''"
  from bad have "upgradeAudioUrl uploaded =
      Inl (Error ''Invalid URL format - AudioShake requires HTTPS URLs'')"
    by (simp add: upgradeAudioUrl_eq split: if_splits) (simp add: startsWith_def)
  with main_after_upload up
  show "exitCode (main w) = 1" and "\<forall>a k. Separate a k \<notin> set (stages (main w))"
    by blast+
next
  assume up: "Upload wavPath \<in> set (stages (main w)) \<and>
              uploadFileTemporary w wavPath = Inr uploaded"
  show "\<forall>a k. Separate a k \<in> set (stages (main w)) \<longrightarrow>
         a = (if startsWith uploaded ''http://'' then ''https://'' @ drop 7 uploaded
              else uploaded) \<and>
         startsWith a ''https://''"
  proof (intro allI impI)
    fix a k
    assume "Separate a k \<in> set (stages (main w))"
    with main_after_upload up have "upgradeAudioUrl uploaded = Inr a"
      by blast
    then show "a = (if startsWith uploaded ''http://'' then ''https://'' @ drop 7 uploaded
              else uploaded) \<and> startsWith a ''https://''"
      by (auto simp: upgradeAudioUrl_eq startsWith_def split: if_splits)
  qed
qed

lemmas main_simps = main_def keylessWorld_def helpWorld_def uploadedWorld_def truthy_def orEmpty_def atLast_def
  isSupportedAudioFile_def toLowerCase_def lowerChar_def SUPPORTED_AUDIO_EXTENSIONS_def
  upgradeAudioUrl_eq

theorem uploaded_url_upgraded_or_rejected_witness:
  "main (uploadedWorld ''http://0x0.st/abc.wav'') =
     \<lparr>stages = [Convert ''song.mp3'', Upload ''converted/song.wav'',
                 Separate ''https://0x0.st/abc.wav'' ''key''],
      exitCode = 0\<rparr> \<and>
   main (uploadedWorld ''ftp://0x0.st/abc.wav'') =
     \<lparr>stages = [Convert ''song.mp3'', Upload ''converted/song.wav''], exitCode = 1\<rparr>"
proof -
  let ?good = "uploadedWorld ''http://0x0.st/abc.wav''"
  let ?bad = "uploadedWorld ''ftp://0x0.st/abc.wav''"
  have g: "stages (main ?good) = [Convert ''song.mp3'', Upload ''converted/song.wav'',
                 Separate ''https://0x0.st/abc.wav'' ''key'']"
    by (simp add: main_simps run_simps mock_simps)
  have g0: "exitCode (main ?good) = 0"
    by (simp add: main_simps run_simps mock_simps)
  have gu: "uploadFileTemporary ?good ''converted/song.wav'' = Inr ''http://0x0.st/abc.wav''"
    by (simp add: main_simps)
  have b: "stages (main ?bad) = [Convert ''song.mp3'', Upload ''converted/song.wav'']"
    by (simp add: main_simps run_simps mock_simps)
  have bu: "uploadFileTemporary ?bad ''converted/song.wav'' = Inr ''ftp://0x0.st/abc.wav''"
    by (simp add: main_simps)
  have b1: "exitCode (main ?bad) = 1"
    using uploaded_url_upgraded_or_rejected
            [of "''ftp://0x0.st/abc.wav''" "''converted/song.wav''" ?bad] b bu
    by (simp add: startsWith_def)
  from g g0 b b1 show ?thesis
    by (cases "main ?good"; cases "main ?bad") simp
qed

text \<open>
  C4, as the claim states it, fails: the key is read and tested only after the conversion
  and the upload. With a valid file and no key in the environment both stages run, and
  then the process ends with status 1. Started with no file and no song, the program
  prints the help and ends with status 0, with or without the key.
\<close>

theorem missing_key_fails_after_conversion_and_upload:
  "envApiKey keylessWorld = None \<and>
   main keylessWorld =
     \<lparr>stages = [Convert ''song.mp3'', Upload ''converted/song.wav''], exitCode = 1\<rparr> \<and>
   envApiKey helpWorld = None \<and>
   main helpWorld = \<lparr>stages = [Help], exitCode = 0\<rparr>"
  by (simp add: main_simps)

text \<open>
  C4, amended. If \<^verbatim>\<open>AUDIOSHAKE_API_KEY\<close> is absent or empty, the stem-separation
  stage never starts, and the process ends with status 1, except when commander ends it
  inside \<^verbatim>\<open>parse\<close> (with commander's status) or when neither a file nor a song was
  given (the help is printed and the status is 0). The key is tested after the conversion
  and upload stages, not at startup: when the input is valid the conversion runs without
  the key, the upload runs when the conversion succeeds, and only then the process ends.
\<close>

theorem missing_key_ends_after_upload:
  assumes "\<not> truthy (envApiKey w)"
    and "filePath = (case optionFile w of Some f \<Rightarrow> Some f | None \<Rightarrow> atLast (args w))"
    and "input = (if \<not> truthy filePath then ''./downloaded/song.mp3'' else orEmpty filePath)"
  shows "(\<forall>a k. Separate a k \<notin> set (stages (main w))) \<and>
         exitCode (main w) =
           (case parseExit w of
              Some code \<Rightarrow> code
            | None \<Rightarrow> if stages (main w) = [Help] then 0 else 1) \<and>
         (stages (main w) = [Help] \<longleftrightarrow>
            parseExit w = None \<and> \<not> truthy filePath \<and> \<not> truthy (optionSong w)) \<and>
         (parseExit w = None \<and>
          (truthy filePath \<and> existsSync w (orEmpty filePath) \<and>
             isSupportedAudioFile (extname w) (orEmpty filePath) \<or>
           \<not> truthy filePath \<and> truthy (optionSong w)) \<longrightarrow>
            stages (main w) =
              Convert input #
                (case convertToWav w input of
                   Inl e \<Rightarrow> []
                 | Inr wavPath \<Rightarrow> [Upload wavPath]))"
proof (cases "parseExit w")
  case (Some code)
  then show ?thesis
    by (simp add: main_def)
next
  case None
  with assms show ?thesis
    by (auto simp: main_def Let_def split: if_splits sum.splits)
qed

theorem missing_key_ends_after_upload_witness:
  "\<not> truthy (envApiKey keylessWorld) \<and>
   stages (main keylessWorld) = [Convert ''song.mp3'', Upload ''converted/song.wav''] \<and>
   exitCode (main keylessWorld) = 1"
proof -
  have k: "\<not> truthy (envApiKey keylessWorld)"
    by (simp add: keylessWorld_def truthy_def)
  have f: "Some ''song.mp3'' =
      (case optionFile keylessWorld of Some f \<Rightarrow> Some f | None \<Rightarrow> atLast (args keylessWorld))"
    by (simp add: keylessWorld_def)
  have i: "''song.mp3'' =
      (if \<not> truthy (Some ''song.mp3'') then ''./downloaded/song.mp3''
       else orEmpty (Some ''song.mp3''))"
    by (simp add: truthy_def orEmpty_def)
  have v: "parseExit keylessWorld = None \<and> truthy (Some ''song.mp3'') \<and>
           existsSync keylessWorld (orEmpty (Some ''song.mp3'')) \<and>
           isSupportedAudioFile (extname keylessWorld) (orEmpty (Some ''song.mp3''))"
    by (simp add: main_simps)
  have c: "convertToWav keylessWorld ''song.mp3'' = Inr ''converted/song.wav''"
    by (simp add: keylessWorld_def)
  from missing_key_ends_after_upload [OF k f i] v c
  have "stages (main keylessWorld) = [Convert ''song.mp3'', Upload ''converted/song.wav''] \<and>
        exitCode (main keylessWorld) = 1"
    by simp
  with k show ?thesis
    by simp
qed

end
